theory Spec2Isabelle
  imports Main "HOL-Library.Multiset"
begin

section \<open>The secure password generator of \<^verbatim>\<open>src/utils/password_generator.py\<close>\<close>

subsection \<open>Errors\<close>

text \<open>
  Every \<^verbatim>\<open>raise\<close> that a run of the module can meet is a value of this type.
  The three \<^verbatim>\<open>ValueError\<close>s of \<^verbatim>\<open>generate_password\<close> differ in their message only,
  so each message is a constructor:
  \<^item> \<open>LengthBelowFour\<close>: "Password length must be at least 4 characters" (line 60);
  \<^item> \<open>NoCharacterType\<close>: "At least one character type must be included" (line 95);
  \<^item> \<open>LengthBelowTypes n\<close>: "Password length must be at least n when ensuring minimum
    of each type" (line 100);
  \<^item> \<open>UpperBoundNotPositive\<close>: the \<^verbatim>\<open>ValueError\<close> of \<^verbatim>\<open>secrets.randbelow\<close> on a bound
    that is not positive;
  \<^item> \<open>IndexError\<close>: \<^verbatim>\<open>secrets.choice\<close> on an empty sequence, or a list subscript out
    of range.
\<close>

datatype error =
    LengthBelowFour
  | NoCharacterType
  | LengthBelowTypes nat
  | UpperBoundNotPositive
  | IndexError

subsection \<open>The secure random source\<close>

text \<open>
  The module draws all its randomness from Python's \<^verbatim>\<open>secrets\<close>. A run is determined by
  the values the operating system's entropy source hands out, so the source is an
  infinite tape of raw values together with the number of values already consumed.
  \<^verbatim>\<open>secrets.randbelow(n)\<close> returns an integer in \<open>[0, n)\<close>: the model takes the next raw
  value into that range. Every result in range is produced by some tape (the tape that
  lists the results), and no tape gives a result out of range.
\<close>

record entropy =
  tape :: "nat \<Rightarrow> nat"
  used :: nat

definition randbelow :: "nat \<Rightarrow> entropy \<Rightarrow> error + (nat \<times> entropy)" where
  "randbelow n s =
     (if n = 0 then Inl UpperBoundNotPositive
      else Inr (tape s (used s) mod n, s\<lparr>used := Suc (used s)\<rparr>))"

text \<open>
  \<^verbatim>\<open>secrets.choice(seq)\<close> raises \<^verbatim>\<open>IndexError\<close> on an empty sequence and returns
  \<^verbatim>\<open>seq[randbelow(len(seq))]\<close> otherwise.
\<close>

definition choice :: "'a list \<Rightarrow> entropy \<Rightarrow> error + ('a \<times> entropy)" where
  "choice seq s =
     (if seq = [] then Inl IndexError
      else case randbelow (length seq) s of
             Inl e \<Rightarrow> Inl e
           | Inr (j, s') \<Rightarrow> Inr (seq ! j, s'))"

text \<open>The tape that starts with the given values and continues with zeros.\<close>

definition tape_of :: "nat list \<Rightarrow> entropy" where
  "tape_of js = \<lparr>tape = (\<lambda>i. if i < length js then js ! i else 0), used = 0\<rparr>"

subsection \<open>The generator object\<close>

text \<open>
  \<^verbatim>\<open>PasswordGenerator.__init__\<close> (lines 24 to 29) fills five tables;
  \<^verbatim>\<open>string.ascii_lowercase\<close>, \<^verbatim>\<open>string.ascii_uppercase\<close> and \<^verbatim>\<open>string.digits\<close> are written
  out. The last two characters of \<open>ambiguous_chars\<close> are the single and the double quote.
\<close>

record PasswordGenerator =
  lowercase :: string
  uppercase :: string
  digits :: string
  symbols :: string
  ambiguous_chars :: string

definition init :: PasswordGenerator where
  "init =
     \<lparr>lowercase = ''abcdefghijklmnopqrstuvwxyz'',
      uppercase = ''ABCDEFGHIJKLMNOPQRSTUVWXYZ'',
      digits = ''0123456789'',
      symbols = ''!@#$%^&*()_+-=[]{}|;:,.<>?'',
      ambiguous_chars = ''0O1lI|`'' @ [CHR 0x27, CHR 0x22]\<rparr>"

subsection \<open>The arguments of \<^verbatim>\<open>generate_password\<close>\<close>

text \<open>
  The keyword arguments of \<^verbatim>\<open>generate_password\<close> (lines 33 to 39), which
  \<^verbatim>\<open>generate_multiple_passwords\<close> passes on as \<^verbatim>\<open>**kwargs\<close>. \<open>length_arg\<close> is the
  argument \<^verbatim>\<open>length\<close>, a Python integer.
\<close>

record kwargs =
  length_arg :: int
  include_lowercase :: bool
  include_uppercase :: bool
  include_digits :: bool
  include_symbols :: bool
  exclude_ambiguous :: bool
  min_of_each_type :: bool

definition defaults :: kwargs where
  "defaults =
     \<lparr>length_arg = 12, include_lowercase = True, include_uppercase = True,
      include_digits = True, include_symbols = False, exclude_ambiguous = False,
      min_of_each_type = True\<rparr>"

subsection \<open>Building the character set (lines 62 to 92)\<close>

text \<open>\<^verbatim>\<open>''.join(c for c in chars if c not in self.ambiguous_chars)\<close>\<close>

definition strip_ambiguous :: "PasswordGenerator \<Rightarrow> string \<Rightarrow> string" where
  "strip_ambiguous self chars = filter (\<lambda>c. c \<notin> set (ambiguous_chars self)) chars"

text \<open>
  The characters a class contributes: \<^verbatim>\<open>chars = self.<table>\<close>, filtered
  \<^verbatim>\<open>if exclude_ambiguous\<close>.
\<close>

definition class_chars :: "PasswordGenerator \<Rightarrow> bool \<Rightarrow> string \<Rightarrow> string" where
  "class_chars self exclude table =
     (if exclude then strip_ambiguous self table else table)"

text \<open>
  The block the source repeats for each of the four classes: when the class is included,
  its characters are appended to \<^verbatim>\<open>char_set\<close> and to \<^verbatim>\<open>selected_types\<close>. The pair is
  \<open>(char_set, selected_types)\<close>.
\<close>

definition add_type ::
  "PasswordGenerator \<Rightarrow> bool \<Rightarrow> bool \<Rightarrow> string \<Rightarrow> string \<times> string list
     \<Rightarrow> string \<times> string list" where
  "add_type self included exclude table acc =
     (if included then
        (let chars = class_chars self exclude table
         in (fst acc @ chars, snd acc @ [chars]))
      else acc)"

definition build_char_set :: "PasswordGenerator \<Rightarrow> kwargs \<Rightarrow> string \<times> string list" where
  "build_char_set self k =
     add_type self (include_symbols k) (exclude_ambiguous k) (symbols self)
       (add_type self (include_digits k) (exclude_ambiguous k) (digits self)
          (add_type self (include_uppercase k) (exclude_ambiguous k) (uppercase self)
             (add_type self (include_lowercase k) (exclude_ambiguous k) (lowercase self)
                ([], []))))"

subsection \<open>Drawing the characters (lines 103 to 110 and 121)\<close>

text \<open>
  \<^verbatim>\<open>for char_type in selected_types: password_chars.append(secrets.choice(char_type))\<close>
\<close>

fun draw_each ::
  "string list \<Rightarrow> char list \<Rightarrow> entropy \<Rightarrow> error + (char list \<times> entropy)" where
  "draw_each [] password_chars s = Inr (password_chars, s)"
| "draw_each (char_type # rest) password_chars s =
     (case choice char_type s of
        Inl e \<Rightarrow> Inl e
      | Inr (c, s') \<Rightarrow> draw_each rest (password_chars @ [c]) s')"

text \<open>
  \<^verbatim>\<open>for _ in range(n): password_chars.append(secrets.choice(char_set))\<close>; the same loop
  is the generator expression of line 121, started on the empty buffer.
\<close>

fun draw_fill ::
  "nat \<Rightarrow> string \<Rightarrow> char list \<Rightarrow> entropy \<Rightarrow> error + (char list \<times> entropy)" where
  "draw_fill 0 char_set password_chars s = Inr (password_chars, s)"
| "draw_fill (Suc n) char_set password_chars s =
     (case choice char_set s of
        Inl e \<Rightarrow> Inl e
      | Inr (c, s') \<Rightarrow> draw_fill n char_set (password_chars @ [c]) s')"

subsection \<open>The shuffle (lines 113 to 116)\<close>

text \<open>
  \<^verbatim>\<open>password_list[i], password_list[j] = password_list[j], password_list[i]\<close>: both reads
  come first and raise \<^verbatim>\<open>IndexError\<close> out of range, then position \<open>i\<close> is written,
  then position \<open>j\<close>.
\<close>

definition swap :: "nat \<Rightarrow> nat \<Rightarrow> 'a list \<Rightarrow> error + 'a list" where
  "swap i j xs =
     (if i < length xs \<and> j < length xs then Inr (xs[i := xs ! j, j := xs ! i])
      else Inl IndexError)"

text \<open>
  The loop \<^verbatim>\<open>for i in range(len(password_list))\<close> runs over the list of the values of
  \<open>i\<close>; each round draws \<^verbatim>\<open>j = secrets.randbelow(len(password_list))\<close> and swaps.
\<close>

fun shuffle_loop ::
  "nat list \<Rightarrow> 'a list \<Rightarrow> entropy \<Rightarrow> error + ('a list \<times> entropy)" where
  "shuffle_loop [] password_list s = Inr (password_list, s)"
| "shuffle_loop (i # rest) password_list s =
     (case randbelow (length password_list) s of
        Inl e \<Rightarrow> Inl e
      | Inr (j, s') \<Rightarrow>
          (case swap i j password_list of
             Inl e \<Rightarrow> Inl e
           | Inr password_list' \<Rightarrow> shuffle_loop rest password_list' s'))"

definition shuffle :: "'a list \<Rightarrow> entropy \<Rightarrow> error + ('a list \<times> entropy)" where
  "shuffle password_chars s =
     shuffle_loop [0 ..< length password_chars] password_chars s"

subsection \<open>\<^verbatim>\<open>generate_password\<close> (lines 31 to 121)\<close>

definition generate_password ::
  "PasswordGenerator \<Rightarrow> kwargs \<Rightarrow> entropy \<Rightarrow> error + (string \<times> entropy)" where
  "generate_password self k s =
     (if length_arg k < 4 then Inl LengthBelowFour
      else
        let (char_set, selected_types) = build_char_set self k in
        if char_set = [] then Inl NoCharacterType
        else if min_of_each_type k \<and> length selected_types > 0 then
          (if length_arg k < int (length selected_types)
           then Inl (LengthBelowTypes (length selected_types))
           else
             case draw_each selected_types [] s of
               Inl e \<Rightarrow> Inl e
             | Inr (password_chars, s1) \<Rightarrow>
                 (let remaining_length = length_arg k - int (length selected_types) in
                  case draw_fill (nat remaining_length) char_set password_chars s1 of
                    Inl e \<Rightarrow> Inl e
                  | Inr (password_chars', s2) \<Rightarrow> shuffle password_chars' s2))
        else draw_fill (nat (length_arg k)) char_set [] s)"

subsection \<open>\<^verbatim>\<open>generate_multiple_passwords\<close> (lines 123 to 129)\<close>

text \<open>
  \<^verbatim>\<open>[self.generate_password(**kwargs) for _ in range(count)]\<close>: the comprehension runs
  \<open>count\<close> times (not at all when \<open>count\<close> is zero or negative; \<open>count_arg\<close> is
  the argument \<^verbatim>\<open>count\<close>), and the first
  exception leaves it.
\<close>

fun generate_loop ::
  "nat \<Rightarrow> PasswordGenerator \<Rightarrow> kwargs \<Rightarrow> string list \<Rightarrow> entropy
     \<Rightarrow> error + (string list \<times> entropy)" where
  "generate_loop 0 self k acc s = Inr (acc, s)"
| "generate_loop (Suc n) self k acc s =
     (case generate_password self k s of
        Inl e \<Rightarrow> Inl e
      | Inr (pw, s') \<Rightarrow> generate_loop n self k (acc @ [pw]) s')"

definition generate_multiple_passwords ::
  "PasswordGenerator \<Rightarrow> int \<Rightarrow> kwargs \<Rightarrow> entropy \<Rightarrow> error + (string list \<times> entropy)" where
  "generate_multiple_passwords self count_arg k s =
     generate_loop (nat count_arg) self k [] s"

subsection \<open>\<^verbatim>\<open>check_password_strength\<close> (lines 131 to 165)\<close>

text \<open>
  \<^verbatim>\<open>str.islower\<close>, \<^verbatim>\<open>str.isupper\<close> and \<^verbatim>\<open>str.isdigit\<close> are Python's character
  classification, which is not part of the module: the analysis takes them as parameters.
  A character of the password is a \<open>char\<close>.
\<close>

record str_methods =
  islower :: "char \<Rightarrow> bool"
  isupper :: "char \<Rightarrow> bool"
  isdigit :: "char \<Rightarrow> bool"

text \<open>The returned dictionary; \<open>length_key\<close> is its key \<^verbatim>\<open>"length"\<close>.\<close>

record report =
  length_key :: int
  has_lowercase :: bool
  has_uppercase :: bool
  has_digits :: bool
  has_symbols :: bool
  character_types :: int
  strength :: string
  strength_score :: int

text \<open>
  A list subscript \<^verbatim>\<open>xs[i]\<close>: a negative index counts from the end, and an index out
  of range raises \<^verbatim>\<open>IndexError\<close>.
\<close>

definition subscript :: "'a list \<Rightarrow> int \<Rightarrow> error + 'a" where
  "subscript xs i =
     (if 0 \<le> i \<and> i < int (length xs) then Inr (xs ! nat i)
      else if - int (length xs) \<le> i \<and> i < 0 then Inr (xs ! nat (i + int (length xs)))
      else Inl IndexError)"

definition check_password_strength ::
  "PasswordGenerator \<Rightarrow> str_methods \<Rightarrow> string \<Rightarrow> error + report" where
  "check_password_strength self m password =
     (let has_lower = list_ex (islower m) password;
          has_upper = list_ex (isupper m) password;
          has_digit = list_ex (isdigit m) password;
          has_symbol = list_ex (\<lambda>c. c \<in> set (symbols self)) password;
          character_types =
            sum_list (map of_bool [has_lower, has_upper, has_digit, has_symbol]);
          score0 = (0 :: int);
          score1 = (if int (length password) \<ge> 8 then score0 + 1 else score0);
          score2 = (if int (length password) \<ge> 12 then score1 + 1 else score1);
          score3 = (if character_types \<ge> 3 then score2 + 1 else score2);
          score4 = (if character_types = 4 then score3 + 1 else score3);
          score5 = (if int (length password) \<ge> 16 then score4 + 1 else score4);
          strength_levels = [''Very Weak'', ''Weak'', ''Fair'', ''Good'', ''Strong'']
      in case subscript strength_levels (min score5 4) of
           Inl e \<Rightarrow> Inl e
         | Inr level \<Rightarrow>
             Inr \<lparr>length_key = int (length password),
                  has_lowercase = has_lower,
                  has_uppercase = has_upper,
                  has_digits = has_digit,
                  has_symbols = has_symbol,
                  character_types = character_types,
                  strength = level,
                  strength_score = score5\<rparr>)"

subsection \<open>Example runs\<close>

text \<open>The password of a result, without the state of the random source.\<close>

definition password_of :: "error + (string \<times> entropy) \<Rightarrow> error + string" where
  "password_of r = (case r of Inl e \<Rightarrow> Inl e | Inr (pw, s) \<Rightarrow> Inr pw)"

text \<open>Argument sets for concrete runs.\<close>

definition all_classes :: kwargs where
  "all_classes =
     \<lparr>length_arg = 8, include_lowercase = True, include_uppercase = True,
      include_digits = True, include_symbols = True, exclude_ambiguous = True,
      min_of_each_type = True\<rparr>"

definition plain_draw :: kwargs where
  "plain_draw = defaults\<lparr>length_arg := 6, min_of_each_type := False\<rparr>"

definition lowercase_only :: kwargs where
  "lowercase_only =
     \<lparr>length_arg = 4, include_lowercase = True, include_uppercase = False,
      include_digits = False, include_symbols = False, exclude_ambiguous = False,
      min_of_each_type = True\<rparr>"

definition lower_upper :: "int \<Rightarrow> kwargs" where
  "lower_upper n =
     \<lparr>length_arg = n, include_lowercase = True, include_uppercase = True,
      include_digits = False, include_symbols = False, exclude_ambiguous = False,
      min_of_each_type = True\<rparr>"

text \<open>All four class flags are false.\<close>

definition no_class :: "kwargs \<Rightarrow> bool" where
  "no_class k =
     (\<not> include_lowercase k \<and> \<not> include_uppercase k \<and> \<not> include_digits k \<and>
      \<not> include_symbols k)"

text \<open>Length 3 with no class included.\<close>

definition short_no_class :: kwargs where
  "short_no_class =
     \<lparr>length_arg = 3, include_lowercase = False, include_uppercase = False,
      include_digits = False, include_symbols = False, exclude_ambiguous = False,
      min_of_each_type = True\<rparr>"

text \<open>
  \<open>generate_password\<close> with \<open>lowercase_only\<close> (length 4) draws four characters and then
  four swap indices below 4. On a tape that starts with 0, 1, 2, 3 the buffer is
  \<open>abcd\<close>; the next four values \<open>js\<close> are the swap indices. \<open>runs_giving pw\<close> counts,
  among all 256 sequences \<open>js\<close> of four indices below 4, those on which the call returns
  \<open>pw\<close>. The indices are independent and uniform, so the 256 sequences are equally
  likely and the probability of \<open>pw\<close> is \<open>runs_giving pw / 256\<close>.
\<close>

definition runs_giving :: "string \<Rightarrow> nat" where
  "runs_giving pw =
     length (filter
       (\<lambda>js. password_of (generate_password init lowercase_only (tape_of ([0, 1, 2, 3] @ js)))
              = Inr pw)
       (List.n_lists 4 [0, 1, 2, 3]))"

section \<open>Properties\<close>

subsection \<open>The random source and the loops\<close>

lemma randbelow_Inr: "randbelow n s = Inr (j, s') \<Longrightarrow> j < n"
  by (auto simp: randbelow_def split: if_splits)

lemma randbelow_pos: "0 < n \<Longrightarrow> \<exists>j s'. randbelow n s = Inr (j, s') \<and> j < n"
  by (simp add: randbelow_def)

lemma choice_Inr: "choice seq s = Inr (c, s') \<Longrightarrow> c \<in> set seq"
  by (auto simp: choice_def randbelow_def split: if_splits)

lemma choice_nonempty: "seq \<noteq> [] \<Longrightarrow> \<exists>c s'. choice seq s = Inr (c, s')"
  by (simp add: choice_def randbelow_def)

lemma choice_Inl: "choice seq s = Inl e \<Longrightarrow> seq = [] \<and> e = IndexError"
  by (auto simp: choice_def randbelow_def split: if_splits)

lemma draw_each_Inr:
  "draw_each ts acc s = Inr (pc, s') \<Longrightarrow>
     \<exists>cs. pc = acc @ cs \<and> list_all2 (\<lambda>c t. c \<in> set t) cs ts"
proof (induction ts arbitrary: acc s)
  case Nil
  then show ?case by simp
next
  case (Cons t ts)
  from Cons.prems obtain c s1 where
    c: "choice t s = Inr (c, s1)" and rest: "draw_each ts (acc @ [c]) s1 = Inr (pc, s')"
    by (auto split: sum.splits)
  from Cons.IH [OF rest] obtain cs where
    cs: "pc = (acc @ [c]) @ cs" "list_all2 (\<lambda>c t. c \<in> set t) cs ts"
    by blast
  have "pc = acc @ (c # cs)" using cs(1) by simp
  moreover have "list_all2 (\<lambda>c t. c \<in> set t) (c # cs) (t # ts)"
    using cs(2) choice_Inr [OF c] by simp
  ultimately show ?case by blast
qed

lemma draw_each_total:
  "[] \<notin> set ts \<Longrightarrow> \<exists>pc s'. draw_each ts acc s = Inr (pc, s')"
proof (induction ts arbitrary: acc s)
  case Nil
  then show ?case by simp
next
  case (Cons t ts)
  then have "t \<noteq> []" by auto
  then obtain c s1 where c: "choice t s = Inr (c, s1)"
    using choice_nonempty by blast
  from Cons.prems have "[] \<notin> set ts" by simp
  from Cons.IH [OF this, of "acc @ [c]" s1] show ?case
    using c by simp
qed

lemma draw_fill_Inr:
  "draw_fill n cs acc s = Inr (pc, s') \<Longrightarrow>
     \<exists>ds. pc = acc @ ds \<and> length ds = n \<and> set ds \<subseteq> set cs"
proof (induction n arbitrary: acc s)
  case 0
  then show ?case by simp
next
  case (Suc n)
  from Suc.prems obtain c s1 where
    c: "choice cs s = Inr (c, s1)" and rest: "draw_fill n cs (acc @ [c]) s1 = Inr (pc, s')"
    by (auto split: sum.splits)
  from Suc.IH [OF rest] obtain ds where
    ds: "pc = (acc @ [c]) @ ds" "length ds = n" "set ds \<subseteq> set cs"
    by blast
  have "pc = acc @ (c # ds)" using ds(1) by simp
  moreover have "length (c # ds) = Suc n" using ds(2) by simp
  moreover have "set (c # ds) \<subseteq> set cs" using ds(3) choice_Inr [OF c] by simp
  ultimately show ?case by blast
qed

lemma draw_fill_total:
  "cs \<noteq> [] \<Longrightarrow> \<exists>pc s'. draw_fill n cs acc s = Inr (pc, s')"
proof (induction n arbitrary: acc s)
  case 0
  then show ?case by simp
next
  case (Suc n)
  from Suc.prems obtain c s1 where c: "choice cs s = Inr (c, s1)"
    using choice_nonempty by blast
  from Suc.IH [OF Suc.prems, of "acc @ [c]" s1] show ?case
    using c by simp
qed

lemma swap_Inr: "i < length xs \<Longrightarrow> j < length xs \<Longrightarrow>
  \<exists>ys. swap i j xs = Inr ys \<and> mset ys = mset xs \<and> length ys = length xs"
  by (simp add: swap_def mset_swap)

lemma shuffle_loop_perm:
  "\<forall>i \<in> set idxs. i < length xs \<Longrightarrow>
     \<exists>ys s'. shuffle_loop idxs xs s = Inr (ys, s') \<and> mset ys = mset xs"
proof (induction idxs arbitrary: xs s)
  case Nil
  then show ?case by simp
next
  case (Cons i idxs)
  then have i: "i < length xs" by simp
  then have "0 < length xs" by (cases xs) auto
  then obtain j s1 where j: "randbelow (length xs) s = Inr (j, s1)" "j < length xs"
    using randbelow_pos by blast
  from swap_Inr [OF i j(2)] obtain ys where
    ys: "swap i j xs = Inr ys" "mset ys = mset xs" "length ys = length xs"
    by blast
  from Cons.prems ys(3) have "\<forall>i \<in> set idxs. i < length ys" by simp
  from Cons.IH [OF this, of s1] obtain zs s' where
    "shuffle_loop idxs ys s1 = Inr (zs, s')" "mset zs = mset ys"
    by blast
  then show ?case using j(1) ys(1,2) by simp
qed

lemma shuffle_returns:
  "\<exists>ys s'. shuffle xs s = Inr (ys, s') \<and> length ys = length xs \<and> mset ys = mset xs"
proof -
  have "\<forall>i \<in> set [0 ..< length xs]. i < length xs" by simp
  from shuffle_loop_perm [OF this, of s] obtain ys s' where
    h: "shuffle_loop [0 ..< length xs] xs s = Inr (ys, s')" "mset ys = mset xs"
    by blast
  from h(2) have "length ys = length xs" by (rule mset_eq_length)
  with h show ?thesis by (auto simp: shuffle_def)
qed

lemma char_set_union:
  "set (fst (build_char_set self k)) =
     (if include_lowercase k then set (class_chars self (exclude_ambiguous k) (lowercase self)) else {}) \<union>
     (if include_uppercase k then set (class_chars self (exclude_ambiguous k) (uppercase self)) else {}) \<union>
     (if include_digits k then set (class_chars self (exclude_ambiguous k) (digits self)) else {}) \<union>
     (if include_symbols k then set (class_chars self (exclude_ambiguous k) (symbols self)) else {})"
  by (simp add: build_char_set_def add_type_def Let_def)

lemma selected_types_eq:
  "snd (build_char_set self k) =
     (if include_lowercase k then [class_chars self (exclude_ambiguous k) (lowercase self)] else []) @
     (if include_uppercase k then [class_chars self (exclude_ambiguous k) (uppercase self)] else []) @
     (if include_digits k then [class_chars self (exclude_ambiguous k) (digits self)] else []) @
     (if include_symbols k then [class_chars self (exclude_ambiguous k) (symbols self)] else [])"
  by (simp add: build_char_set_def add_type_def Let_def)

lemma char_set_concat:
  "fst (build_char_set self k) = concat (snd (build_char_set self k))"
  by (simp add: build_char_set_def add_type_def Let_def)

lemma selected_types_le4: "length (snd (build_char_set self k)) \<le> 4"
  by (simp add: selected_types_eq)

lemma generate_password_Inr_cases:
  assumes "generate_password self k s = Inr (pw, s')"
  obtains
    (each) cs s1 ds s2 where
      "min_of_each_type k" "4 \<le> length_arg k"
      "int (length (snd (build_char_set self k))) \<le> length_arg k"
      "draw_each (snd (build_char_set self k)) [] s = Inr (cs, s1)"
      "draw_fill (nat (length_arg k - int (length (snd (build_char_set self k)))))
         (fst (build_char_set self k)) cs s1 = Inr (ds, s2)"
      "shuffle ds s2 = Inr (pw, s')"
  | (plain) "\<not> min_of_each_type k" "4 \<le> length_arg k"
      "draw_fill (nat (length_arg k)) (fst (build_char_set self k)) [] s = Inr (pw, s')"
proof (cases "min_of_each_type k")
  case True
  from assms have "fst (build_char_set self k) \<noteq> []"
    by (auto simp: generate_password_def Let_def split: if_splits prod.splits)
  then have "snd (build_char_set self k) \<noteq> []"
    by (auto simp: char_set_concat)
  with assms True each show ?thesis
    by (auto simp: generate_password_def Let_def split: if_splits prod.splits sum.splits)
next
  case False
  with assms plain show ?thesis
    by (auto simp: generate_password_def Let_def split: if_splits prod.splits)
qed

lemma list_all2_in_concat:
  "list_all2 (\<lambda>c t. c \<in> set t) cs ts \<Longrightarrow> set cs \<subseteq> set (concat ts)"
  by (induction cs ts rule: list_all2_induct) auto

lemma list_all2_each_hit:
  "list_all2 (\<lambda>c t. c \<in> set t) cs ts \<Longrightarrow> t \<in> set ts \<Longrightarrow> \<exists>c \<in> set cs. c \<in> set t"
  by (induction cs ts rule: list_all2_induct) auto

lemma shuffle_Inr:
  assumes "shuffle xs s = Inr (ys, s')"
  shows "mset ys = mset xs"
  using shuffle_returns [of xs s] assms by auto

text \<open>What a successful run returns: a rearrangement of the mandatory characters,
  one per selected type, followed by the fill characters.\<close>

lemma generate_password_each_shape:
  assumes "generate_password self k s = Inr (pw, s')" and "min_of_each_type k"
  shows "\<exists>cs fs. mset pw = mset (cs @ fs) \<and>
           list_all2 (\<lambda>c t. c \<in> set t) cs (snd (build_char_set self k)) \<and>
           int (length (cs @ fs)) = length_arg k \<and>
           set fs \<subseteq> set (fst (build_char_set self k))"
  using assms(1)
proof (cases rule: generate_password_Inr_cases)
  case (each cs s1 ds s2)
  from draw_each_Inr [OF each(4)] have
    cs: "list_all2 (\<lambda>c t. c \<in> set t) cs (snd (build_char_set self k))"
    by simp
  from draw_fill_Inr [OF each(5)] obtain fs where
    fs: "ds = cs @ fs"
        "length fs = nat (length_arg k - int (length (snd (build_char_set self k))))"
        "set fs \<subseteq> set (fst (build_char_set self k))"
    by blast
  have "length cs = length (snd (build_char_set self k))"
    using cs by (rule list_all2_lengthD)
  with fs(2) each(3) have "int (length (cs @ fs)) = length_arg k" by simp
  moreover have "mset pw = mset (cs @ fs)"
    using shuffle_Inr [OF each(6)] fs(1) by simp
  ultimately show ?thesis using cs fs(3) by blast
next
  case plain
  with assms(2) show ?thesis by simp
qed

lemma generate_password_plain_shape:
  assumes "generate_password self k s = Inr (pw, s')" and "\<not> min_of_each_type k"
  shows "int (length pw) = length_arg k \<and> set pw \<subseteq> set (fst (build_char_set self k))"
  using assms(1)
proof (cases rule: generate_password_Inr_cases)
  case (each cs s1 ds s2)
  with assms(2) show ?thesis by simp
next
  case plain
  from draw_fill_Inr [OF plain(3)] plain(2) show ?thesis by auto
qed

lemma generate_password_in_char_set:
  assumes "generate_password self k s = Inr (pw, s')"
  shows "set pw \<subseteq> set (fst (build_char_set self k))"
proof (cases "min_of_each_type k")
  case True
  from generate_password_each_shape [OF assms True] obtain cs fs where
    h: "mset pw = mset (cs @ fs)"
       "list_all2 (\<lambda>c t. c \<in> set t) cs (snd (build_char_set self k))"
       "set fs \<subseteq> set (fst (build_char_set self k))"
    by blast
  from h(1) have "set pw = set (cs @ fs)" by (rule mset_eq_setD)
  moreover have "set cs \<subseteq> set (fst (build_char_set self k))"
    using list_all2_in_concat [OF h(2)] by (simp add: char_set_concat)
  ultimately show ?thesis using h(3) by simp
next
  case False
  from generate_password_plain_shape [OF assms False] show ?thesis by simp
qed

text \<open>
  Claim C4. Whenever \<open>generate_password\<close> returns a password (no error is raised), in
  the branch that guarantees one character of each type as in the plain branch and
  for every tape of the random source, the password has exactly \<open>length\<close> characters.
\<close>

theorem generate_password_length:
  assumes "generate_password self k s = Inr (pw, s')"
  shows "int (length pw) = length_arg k"
proof (cases "min_of_each_type k")
  case True
  from generate_password_each_shape [OF assms True] obtain cs fs where
    h: "mset pw = mset (cs @ fs)" "int (length (cs @ fs)) = length_arg k"
    by blast
  from h(1) have "length pw = length (cs @ fs)" by (rule mset_eq_length)
  with h(2) show ?thesis by simp
next
  case False
  from generate_password_plain_shape [OF assms False] show ?thesis by simp
qed

lemma strip_ambiguous_disjoint:
  "set (strip_ambiguous self chars) \<inter> set (ambiguous_chars self) = {}"
  by (auto simp: strip_ambiguous_def)

lemma char_set_disjoint_ambiguous:
  "exclude_ambiguous k \<Longrightarrow>
     set (fst (build_char_set self k)) \<inter> set (ambiguous_chars self) = {}"
proof -
  assume ex: "exclude_ambiguous k"
  have d: "set (class_chars self True t) \<inter> set (ambiguous_chars self) = {}" for t
    by (simp add: class_chars_def strip_ambiguous_disjoint)
  show ?thesis
    unfolding char_set_union ex [THEN eqTrueI]
    using d [of "lowercase self"] d [of "uppercase self"] d [of "digits self"]
      d [of "symbols self"]
    by (simp add: Int_Un_distrib2)
qed

text \<open>
  Claim C5. With \<open>exclude_ambiguous\<close> set, no character of a returned password is one of
  the ambiguous characters \<open>0 O 1 l I |\<close>, backquote, single quote and double quote,
  whatever the random source gives.
\<close>

theorem generate_password_no_ambiguous:
  assumes "exclude_ambiguous k" and "generate_password init k s = Inr (pw, s')"
  shows "set pw \<inter> set (''0O1lI|`'' @ [CHR 0x27, CHR 0x22]) = {}"
proof -
  have "set pw \<subseteq> set (fst (build_char_set init k))"
    using assms(2) by (rule generate_password_in_char_set)
  moreover have "set (fst (build_char_set init k)) \<inter> set (ambiguous_chars init) = {}"
    using assms(1) by (rule char_set_disjoint_ambiguous)
  moreover have "ambiguous_chars init = ''0O1lI|`'' @ [CHR 0x27, CHR 0x22]"
    by (simp add: init_def)
  ultimately show ?thesis by auto
qed

text \<open>
  Claim C6. With \<open>min_of_each_type\<close> set, a returned password contains, for each class
  that is included, at least one character of that class's (filtered) characters; the
  shuffle does not lose it.
\<close>

theorem generate_password_one_of_each:
  assumes "min_of_each_type k" and "generate_password init k s = Inr (pw, s')"
  shows "(include_lowercase k \<longrightarrow>
            set pw \<inter> set (class_chars init (exclude_ambiguous k) (lowercase init)) \<noteq> {}) \<and>
         (include_uppercase k \<longrightarrow>
            set pw \<inter> set (class_chars init (exclude_ambiguous k) (uppercase init)) \<noteq> {}) \<and>
         (include_digits k \<longrightarrow>
            set pw \<inter> set (class_chars init (exclude_ambiguous k) (digits init)) \<noteq> {}) \<and>
         (include_symbols k \<longrightarrow>
            set pw \<inter> set (class_chars init (exclude_ambiguous k) (symbols init)) \<noteq> {})"
proof -
  from generate_password_each_shape [OF assms(2) assms(1)] obtain cs fs where
    h: "mset pw = mset (cs @ fs)"
       "list_all2 (\<lambda>c t. c \<in> set t) cs (snd (build_char_set init k))"
    by blast
  from h(1) have "set pw = set (cs @ fs)" by (rule mset_eq_setD)
  then have pw: "set pw = set cs \<union> set fs" by simp
  have hit: "set pw \<inter> set t \<noteq> {}" if "t \<in> set (snd (build_char_set init k))" for t
    using list_all2_each_hit [OF h(2) that] pw by auto
  show ?thesis
    by (intro conjI impI hit) (simp_all add: selected_types_eq)
qed

text \<open>
  Claim C7. Every character of a returned password belongs to the union of the
  included classes after the filtering of ambiguous characters, in both branches.
\<close>

theorem generate_password_chars_in_union:
  assumes "generate_password init k s = Inr (pw, s')"
  shows "set pw \<subseteq>
     (if include_lowercase k then set (class_chars init (exclude_ambiguous k) (lowercase init)) else {}) \<union>
     (if include_uppercase k then set (class_chars init (exclude_ambiguous k) (uppercase init)) else {}) \<union>
     (if include_digits k then set (class_chars init (exclude_ambiguous k) (digits init)) else {}) \<union>
     (if include_symbols k then set (class_chars init (exclude_ambiguous k) (symbols init)) else {})"
  using generate_password_in_char_set [OF assms] by (simp only: char_set_union)

subsection \<open>Concrete runs\<close>

lemma password_of_Inr:
  "password_of r = Inr pw \<Longrightarrow> \<exists>s'. r = Inr (pw, s')"
  by (auto simp: password_of_def split: sum.splits)

lemma all_classes_run:
  "\<exists>s'. generate_password init all_classes
          (tape_of [11, 7, 0, 24, 100, 61, 33, 48, 2, 6, 1, 0, 5, 3, 7, 4])
        = Inr (''?mJtH2Z%'', s')"
proof -
  have "password_of (generate_password init all_classes
          (tape_of [11, 7, 0, 24, 100, 61, 33, 48, 2, 6, 1, 0, 5, 3, 7, 4]))
        = Inr ''?mJtH2Z%''"
    by code_simp
  then show ?thesis by (rule password_of_Inr)
qed

lemma plain_draw_run:
  "\<exists>s'. generate_password init plain_draw (tape_of [11, 37, 60, 24, 100, 61])
        = Inr (''lL8yM9'', s')"
proof -
  have "password_of (generate_password init plain_draw (tape_of [11, 37, 60, 24, 100, 61]))
        = Inr ''lL8yM9''"
    by code_simp
  then show ?thesis by (rule password_of_Inr)
qed

theorem generate_password_length_witness:
  "\<exists>s'. generate_password init all_classes
          (tape_of [11, 7, 0, 24, 100, 61, 33, 48, 2, 6, 1, 0, 5, 3, 7, 4])
        = Inr (''?mJtH2Z%'', s') \<and>
        int (length ''?mJtH2Z%'') = length_arg all_classes"
proof -
  from all_classes_run obtain s' where
    h: "generate_password init all_classes
          (tape_of [11, 7, 0, 24, 100, 61, 33, 48, 2, 6, 1, 0, 5, 3, 7, 4])
        = Inr (''?mJtH2Z%'', s')"
    by blast
  from generate_password_length [OF h] h show ?thesis by blast
qed

theorem generate_password_no_ambiguous_witness:
  "exclude_ambiguous all_classes \<and>
   (\<exists>s'. generate_password init all_classes
          (tape_of [11, 7, 0, 24, 100, 61, 33, 48, 2, 6, 1, 0, 5, 3, 7, 4])
        = Inr (''?mJtH2Z%'', s')) \<and>
   set ''?mJtH2Z%'' \<inter> set (''0O1lI|`'' @ [CHR 0x27, CHR 0x22]) = {}"
proof -
  have ex: "exclude_ambiguous all_classes" by (simp add: all_classes_def)
  from all_classes_run obtain s' where
    h: "generate_password init all_classes
          (tape_of [11, 7, 0, 24, 100, 61, 33, 48, 2, 6, 1, 0, 5, 3, 7, 4])
        = Inr (''?mJtH2Z%'', s')"
    by blast
  from generate_password_no_ambiguous [OF ex h] ex h show ?thesis by blast
qed

theorem generate_password_one_of_each_witness:
  "min_of_each_type all_classes \<and> include_lowercase all_classes \<and>
   include_uppercase all_classes \<and> include_digits all_classes \<and>
   include_symbols all_classes \<and>
   (\<exists>s'. generate_password init all_classes
          (tape_of [11, 7, 0, 24, 100, 61, 33, 48, 2, 6, 1, 0, 5, 3, 7, 4])
        = Inr (''?mJtH2Z%'', s')) \<and>
   set ''?mJtH2Z%'' \<inter> set (class_chars init True (lowercase init)) \<noteq> {} \<and>
   set ''?mJtH2Z%'' \<inter> set (class_chars init True (uppercase init)) \<noteq> {} \<and>
   set ''?mJtH2Z%'' \<inter> set (class_chars init True (digits init)) \<noteq> {} \<and>
   set ''?mJtH2Z%'' \<inter> set (class_chars init True (symbols init)) \<noteq> {}"
proof -
  have flags: "min_of_each_type all_classes" "include_lowercase all_classes"
    "include_uppercase all_classes" "include_digits all_classes"
    "include_symbols all_classes" "exclude_ambiguous all_classes = True"
    by (simp_all add: all_classes_def)
  from all_classes_run obtain s' where
    h: "generate_password init all_classes
          (tape_of [11, 7, 0, 24, 100, 61, 33, 48, 2, 6, 1, 0, 5, 3, 7, 4])
        = Inr (''?mJtH2Z%'', s')"
    by blast
  from generate_password_one_of_each [OF flags(1) h] flags h show ?thesis
    by (simp only: simp_thms) blast
qed

theorem generate_password_chars_in_union_witness:
  "(\<exists>s'. generate_password init plain_draw (tape_of [11, 37, 60, 24, 100, 61])
        = Inr (''lL8yM9'', s')) \<and>
   set ''lL8yM9'' \<subseteq> set (lowercase init) \<union> set (uppercase init) \<union> set (digits init)"
proof -
  from plain_draw_run obtain s' where
    h: "generate_password init plain_draw (tape_of [11, 37, 60, 24, 100, 61])
        = Inr (''lL8yM9'', s')"
    by blast
  have "set ''lL8yM9'' \<subseteq> set (lowercase init) \<union> set (uppercase init) \<union> set (digits init)"
    using generate_password_chars_in_union [OF h]
    by (simp add: plain_draw_def defaults_def class_chars_def)
  with h show ?thesis by blast
qed

subsection \<open>The fixed class tables\<close>

lemma init_class_chars_nonempty:
  "class_chars init ex (lowercase init) \<noteq> []"
  "class_chars init ex (uppercase init) \<noteq> []"
  "class_chars init ex (digits init) \<noteq> []"
  "class_chars init ex (symbols init) \<noteq> []"
  by (simp_all add: class_chars_def strip_ambiguous_def init_def)

lemma init_selected_types_nonempty: "[] \<notin> set (snd (build_char_set init k))"
  by (simp add: selected_types_eq init_class_chars_nonempty [symmetric])

lemma init_char_set_empty: "(fst (build_char_set init k) = []) = no_class k"
  by (simp add: char_set_concat selected_types_eq init_class_chars_nonempty no_class_def)

lemma generate_password_init_total:
  assumes "4 \<le> length_arg k" and "\<not> no_class k"
  shows "\<exists>pw s'. generate_password init k s = Inr (pw, s')"
proof -
  let ?cs = "fst (build_char_set init k)" and ?ts = "snd (build_char_set init k)"
  have cs: "?cs \<noteq> []" using assms(2) by (simp add: init_char_set_empty)
  have le: "\<not> length_arg k < int (length ?ts)"
    using assms(1) selected_types_le4 [of init k] by simp
  obtain pc s1 where pc: "draw_each ?ts [] s = Inr (pc, s1)"
    using draw_each_total [OF init_selected_types_nonempty] by blast
  obtain pc' s2 where pc': "draw_fill (nat (length_arg k - int (length ?ts))) ?cs pc s1 = Inr (pc', s2)"
    using draw_fill_total [OF cs] by blast
  obtain pw s3 where pw: "shuffle pc' s2 = Inr (pw, s3)"
    using shuffle_returns by blast
  obtain qw s4 where qw: "draw_fill (nat (length_arg k)) ?cs [] s = Inr (qw, s4)"
    using draw_fill_total [OF cs] by blast
  show ?thesis
    using assms(1) cs le pc pc' pw qw
    by (simp add: generate_password_def Let_def case_prod_beta)
qed

lemma generate_password_short:
  "length_arg k < 4 \<Longrightarrow> generate_password self k s = Inl LengthBelowFour"
  by (simp add: generate_password_def)

lemma generate_password_init_no_class:
  "4 \<le> length_arg k \<Longrightarrow> no_class k \<Longrightarrow> generate_password init k s = Inl NoCharacterType"
  using init_char_set_empty [of k]
  by (simp add: generate_password_def Let_def case_prod_beta)

text \<open>
  Claim C10 says that the error of line 95 is raised exactly when all four class flags
  are false. With length 3 and all four flags false the check of line 59 comes first:
  the call ends in \<open>LengthBelowFour\<close>, not in \<open>NoCharacterType\<close>.
\<close>

theorem class_tables_error_behind_length_check:
  "no_class short_no_class \<and>
   generate_password init short_no_class (tape_of []) = Inl LengthBelowFour \<and>
   generate_password init short_no_class (tape_of []) \<noteq> Inl NoCharacterType"
  by (simp add: generate_password_def short_no_class_def no_class_def)

text \<open>
  Claim C10, amended. On the four fixed tables the filter removes only \<open>l\<close>, only \<open>O\<close>
  and \<open>I\<close>, only \<open>0\<close> and \<open>1\<close>, and only \<open>|\<close>, so no class becomes empty. Hence, as
  soon as one class flag is true, \<open>char_set\<close> is not empty; no string handed to
  \<open>choice\<close> is empty and \<open>generate_password\<close> never ends in \<open>IndexError\<close>: past the
  checks it returns a password. The test \<open>not char_set\<close> of line 94 holds exactly when
  all four flags are false, and the error of line 95 is raised exactly when the length
  is at least 4 and all four flags are false.
\<close>

theorem class_tables_never_empty:
  "strip_ambiguous init (lowercase init) = ''abcdefghijkmnopqrstuvwxyz'' \<and>
   strip_ambiguous init (uppercase init) = ''ABCDEFGHJKLMNPQRSTUVWXYZ'' \<and>
   strip_ambiguous init (digits init) = ''23456789'' \<and>
   strip_ambiguous init (symbols init) = ''!@#$%^&*()_+-=[]{};:,.<>?'' \<and>
   (\<not> no_class k \<longrightarrow> fst (build_char_set init k) \<noteq> []) \<and>
   [] \<notin> set (snd (build_char_set init k)) \<and>
   generate_password init k s \<noteq> Inl IndexError \<and>
   (4 \<le> length_arg k \<and> \<not> no_class k \<longrightarrow> (\<exists>pw s'. generate_password init k s = Inr (pw, s'))) \<and>
   (fst (build_char_set init k) = []) = no_class k \<and>
   (generate_password init k s = Inl NoCharacterType) = (4 \<le> length_arg k \<and> no_class k)"
proof -
  have tables:
    "strip_ambiguous init (lowercase init) = ''abcdefghijkmnopqrstuvwxyz''"
    "strip_ambiguous init (uppercase init) = ''ABCDEFGHJKLMNPQRSTUVWXYZ''"
    "strip_ambiguous init (digits init) = ''23456789''"
    "strip_ambiguous init (symbols init) = ''!@#$%^&*()_+-=[]{};:,.<>?''"
    by (simp_all add: strip_ambiguous_def init_def)
  have run:
    "generate_password init k s \<noteq> Inl IndexError \<and>
     (generate_password init k s = Inl NoCharacterType) = (4 \<le> length_arg k \<and> no_class k)"
  proof (cases "length_arg k < 4")
    case True
    then show ?thesis by (simp add: generate_password_short)
  next
    case long: False
    show ?thesis
    proof (cases "no_class k")
      case True
      with long show ?thesis by (simp add: generate_password_init_no_class)
    next
      case False
      with long generate_password_init_total [of k s] show ?thesis by auto
    qed
  qed
  show ?thesis
    using tables run init_selected_types_nonempty [of k] init_char_set_empty [of k]
      generate_password_init_total [of k s]
    by simp
qed

theorem class_tables_never_empty_witness:
  "4 \<le> length_arg all_classes \<and> \<not> no_class all_classes \<and>
   exclude_ambiguous all_classes \<and>
   fst (build_char_set init all_classes) \<noteq> [] \<and>
   [] \<notin> set (snd (build_char_set init all_classes)) \<and>
   (\<exists>pw s'. generate_password init all_classes
             (tape_of [11, 7, 0, 24, 100, 61, 33, 48, 2, 6, 1, 0, 5, 3, 7, 4])
           = Inr (pw, s')) \<and>
   generate_password init all_classes
     (tape_of [11, 7, 0, 24, 100, 61, 33, 48, 2, 6, 1, 0, 5, 3, 7, 4])
     \<noteq> Inl NoCharacterType \<and>
   4 \<le> length_arg (short_no_class\<lparr>length_arg := 4\<rparr>) \<and>
   no_class (short_no_class\<lparr>length_arg := 4\<rparr>) \<and>
   generate_password init (short_no_class\<lparr>length_arg := 4\<rparr>) (tape_of [])
     = Inl NoCharacterType"
proof -
  have h: "4 \<le> length_arg all_classes" "\<not> no_class all_classes"
    "exclude_ambiguous all_classes"
    by (simp_all add: all_classes_def no_class_def)
  have g: "4 \<le> length_arg (short_no_class\<lparr>length_arg := 4\<rparr>)"
    "no_class (short_no_class\<lparr>length_arg := 4\<rparr>)"
    by (simp_all add: short_no_class_def no_class_def)
  from h g
    class_tables_never_empty [of all_classes
      "tape_of [11, 7, 0, 24, 100, 61, 33, 48, 2, 6, 1, 0, 5, 3, 7, 4]"]
    class_tables_never_empty [of "short_no_class\<lparr>length_arg := 4\<rparr>" "tape_of []"]
  show ?thesis by simp
qed

subsection \<open>The strength analysis\<close>

lemma subscript_in_range:
  "0 \<le> i \<Longrightarrow> i < int (length xs) \<Longrightarrow> subscript xs i = Inr (xs ! nat i)"
  by (simp add: subscript_def)

lemma score_step: "0 \<le> (x :: int) \<Longrightarrow> 0 \<le> (if b then x + 1 else x)"
  by simp

lemma strength_level_found:
  assumes "0 \<le> i"
  shows "\<exists>r. (case subscript [a0, a1, a2, a3, a4 :: string] (min i 4) of
                Inl e \<Rightarrow> Inl e
              | Inr level \<Rightarrow> Inr (g level)) = Inr (r :: report)"
proof -
  have "0 \<le> min i 4" "min i 4 < int (length [a0, a1, a2, a3, a4])"
    using assms by simp_all
  then have "subscript [a0, a1, a2, a3, a4] (min i 4) = Inr ([a0, a1, a2, a3, a4] ! nat (min i 4))"
    by (rule subscript_in_range)
  then show ?thesis by simp
qed

text \<open>
  Claim C8. On the empty string \<open>check_password_strength\<close> reports all four flags
  false, zero character types, score zero and the label \<open>Very Weak\<close>; and on every
  string, whatever the character classification, it returns a report: the subscript
  into the list of labels is always in range.
\<close>

theorem check_password_strength_empty:
  "check_password_strength init m [] =
     Inr \<lparr>length_key = 0, has_lowercase = False, has_uppercase = False,
          has_digits = False, has_symbols = False, character_types = 0,
          strength = ''Very Weak'', strength_score = 0\<rparr> \<and>
   (\<exists>r. check_password_strength self m password = Inr r)"
proof
  show "check_password_strength init m [] =
     Inr \<lparr>length_key = 0, has_lowercase = False, has_uppercase = False,
          has_digits = False, has_symbols = False, character_types = 0,
          strength = ''Very Weak'', strength_score = 0\<rparr>"
    by (simp add: check_password_strength_def subscript_def)
next
  show "\<exists>r. check_password_strength self m password = Inr r"
    unfolding check_password_strength_def Let_def
    by (rule strength_level_found) (intro score_step order_refl)
qed

subsection \<open>Batch generation, short lengths and the shuffle\<close>

text \<open>
  Claim C2 asks for an error when \<open>count\<close> is below 1. The comprehension of line 129
  does not run then, and the call returns the empty list: here for \<open>count\<close> 0 and -3.
\<close>

theorem generate_multiple_passwords_no_count_check:
  "generate_multiple_passwords init 0 defaults (tape_of []) = Inr ([], tape_of []) \<and>
   generate_multiple_passwords init (- 3) defaults (tape_of []) = Inr ([], tape_of [])"
  by (simp add: generate_multiple_passwords_def)

text \<open>
  Claim C2, amended. For every \<open>count\<close> below 1 and all arguments,
  \<open>generate_multiple_passwords\<close> returns the empty list, raises no error, does not look
  at the arguments and draws nothing from the random source.
\<close>

theorem generate_multiple_passwords_nonpositive:
  "count_arg < 1 \<Longrightarrow> generate_multiple_passwords self count_arg k s = Inr ([], s)"
  by (simp add: generate_multiple_passwords_def)

theorem generate_multiple_passwords_nonpositive_witness:
  "(- 3 :: int) < 1 \<and>
   generate_multiple_passwords init (- 3) (lower_upper 2) (tape_of [5, 6]) = Inr ([], tape_of [5, 6])"
  using generate_multiple_passwords_nonpositive [of "- 3" init "lower_upper 2" "tape_of [5, 6]"]
  by simp

text \<open>
  Claim C3 expects the error of line 100 for length 2 (and 1) with lowercase and
  uppercase included. The check of line 59 comes first: the call ends in
  \<open>LengthBelowFour\<close>, not in \<open>LengthBelowTypes\<close>.
\<close>

theorem generate_password_length_two_error:
  "generate_password init (lower_upper 2) (tape_of []) = Inl LengthBelowFour \<and>
   generate_password init (lower_upper 2) (tape_of []) \<noteq> Inl (LengthBelowTypes 2) \<and>
   generate_password init (lower_upper 1) (tape_of []) = Inl LengthBelowFour \<and>
   generate_password init (lower_upper 1) (tape_of []) \<noteq> Inl (LengthBelowTypes 2)"
  by (simp add: generate_password_def lower_upper_def)

text \<open>
  Claim C3, amended. With length 2 (and likewise 1), only lowercase and uppercase
  included and \<open>min_of_each_type\<close> set, \<open>generate_password\<close> fails with the error of the
  check \<open>length < 4\<close> (line 60), and with no other error.
\<close>

theorem generate_password_short_length:
  assumes "length_arg k = 2 \<or> length_arg k = 1"
    and "include_lowercase k" and "include_uppercase k"
    and "\<not> include_digits k" and "\<not> include_symbols k"
    and "min_of_each_type k"
  shows "generate_password init k s = Inl LengthBelowFour"
proof -
  from assms(1) have "length_arg k < 4" by auto
  then show ?thesis by (rule generate_password_short)
qed

theorem generate_password_short_length_witness:
  "(length_arg (lower_upper 2) = 2 \<or> length_arg (lower_upper 2) = 1) \<and>
   include_lowercase (lower_upper 2) \<and> include_uppercase (lower_upper 2) \<and>
   \<not> include_digits (lower_upper 2) \<and> \<not> include_symbols (lower_upper 2) \<and>
   min_of_each_type (lower_upper 2) \<and>
   generate_password init (lower_upper 2) (tape_of [7, 7]) = Inl LengthBelowFour"
  using generate_password_short_length [of "lower_upper 2" "tape_of [7, 7]"]
  by (simp add: lower_upper_def)

text \<open>
  Claim C9. The shuffle loop returns for every buffer and every tape of the random
  source, and its result has the length and the multiset of characters of the buffer.
\<close>

theorem shuffle_is_permutation:
  "\<exists>ys s'. shuffle xs s = Inr (ys, s') \<and> length ys = length xs \<and> mset ys = mset xs"
proof -
  have "\<forall>i \<in> set [0 ..< length xs]. i < length xs" by simp
  from shuffle_loop_perm [OF this, of s] obtain ys s' where
    h: "shuffle_loop [0 ..< length xs] xs s = Inr (ys, s')" "mset ys = mset xs"
    by blast
  from h(2) have "length ys = length xs" by (rule mset_eq_length)
  with h show ?thesis by (auto simp: shuffle_def)
qed

text \<open>
  Claim C1 says that the shuffle yields every permutation of the buffer with equal
  probability. Line 115 draws the swap partner from all positions at every step, not
  from the positions not fixed yet. For the buffer \<open>abcd\<close> of a call with length 4,
  15 of the 256 equally likely index sequences give \<open>badc\<close> and 8 give \<open>dabc\<close>
  (24 permutations cannot share 256 sequences equally). In the run with the swap
  indices 0, 1, 2, 0 the last step, \<open>i = 3\<close>, swaps with position 0, which the first
  step had already placed.
\<close>

theorem shuffle_not_uniform:
  "runs_giving ''badc'' = 15 \<and> runs_giving ''dabc'' = 8 \<and>
   password_of (generate_password init lowercase_only (tape_of [0, 1, 2, 3, 0, 1, 2, 0]))
     = Inr ''dbca''"
  by code_simp

end
